theory Spec2Isabelle
  imports Main "HOL-Library.Multiset" "HOL-Library.AList"
begin

section \<open>Python values and library functions\<close>

text \<open>
  The module \<^verbatim>\<open>lib/klocwork/webapi.py\<close> is Python 2. Exceptions are values of the type
  \<open>error\<close>; a function that may raise returns \<open>error + 'a\<close> with \<open>Inl\<close> the exception.
\<close>

datatype error =
  IOError | IndexError | KeyError | TypeError | AttributeError | ValueError
  | URLError | UnicodeEncodeError | RuntimeError

text \<open>
  What \<^verbatim>\<open>json.loads\<close> returns. An object is a Python dict with string keys, a map
  from strings to values. Floating point numbers are left out.
\<close>

datatype json =
  JNull | JBool bool | JInt int | JStr string | JList "json list"
  | JObj "string \<Rightarrow> json option"

type_synonym pydict = "string \<Rightarrow> json option"

text \<open>
  The functions of the Python library and of the platform that the module calls, taken as
  parameters: \<^verbatim>\<open>socket.getfqdn\<close>, \<^verbatim>\<open>os.sep\<close>, \<^verbatim>\<open>os.path.normpath\<close>,
  \<^verbatim>\<open>os.path.relpath\<close> (\<open>None\<close> when it raises), \<^verbatim>\<open>urllib.urlencode\<close>,
  \<^verbatim>\<open>urllib2.urlopen\<close> on a url and a request body (the lines of the response, or the
  exception), \<^verbatim>\<open>json.loads\<close>, \<^verbatim>\<open>str\<close> on a list or a dict, and the order in which the tasks
  of a thread pool complete (\<open>completion\<close>, read by \<open>unordered\<close> below).
\<close>

record env =
  getfqdn :: "string \<Rightarrow> string"
  os_sep :: string
  normpath :: "string \<Rightarrow> string"
  relpath :: "string \<Rightarrow> string \<Rightarrow> string option"
  urlencode :: "pydict \<Rightarrow> error + string"
  urlopen :: "string \<Rightarrow> string \<Rightarrow> error + string list"
  json_loads :: "string \<Rightarrow> error + json"
  str_container :: "json \<Rightarrow> string"
  completion :: "nat list"

subsection \<open>Strings\<close>

fun str_nat :: "nat \<Rightarrow> string" where
  "str_nat n =
     (if n < 10 then [''0123456789'' ! n]
      else str_nat (n div 10) @ [''0123456789'' ! (n mod 10)])"

declare str_nat.simps [simp del]

definition str_int :: "int \<Rightarrow> string" where
  \<comment> \<open>\<^verbatim>\<open>str(port)\<close> for an integer\<close>
  "str_int i = (if i < 0 then CHR ''-'' # str_nat (nat (- i)) else str_nat (nat i))"

definition is_space :: "char \<Rightarrow> bool" where
  \<comment> \<open>the characters \<^verbatim>\<open>str.strip()\<close> removes: space, tab, newline, return, VT, FF\<close>
  "is_space c = (c = CHR '' '' \<or> c = CHR 0x09 \<or> c = CHR 0x0A \<or> c = CHR 0x0D
                 \<or> c = CHR 0x0B \<or> c = CHR 0x0C)"

definition strip :: "string \<Rightarrow> string" where
  "strip s = rev (dropWhile is_space (rev (dropWhile is_space s)))"

fun split_from :: "char \<Rightarrow> string \<Rightarrow> string \<Rightarrow> string list" where
  "split_from sep cur [] = [cur]"
| "split_from sep cur (c # cs) =
     (if c = sep then cur # split_from sep [] cs else split_from sep (cur @ [c]) cs)"

definition split :: "char \<Rightarrow> string \<Rightarrow> string list" where
  \<comment> \<open>\<^verbatim>\<open>s.split(sep)\<close> for a separator of one character: never empty\<close>
  "split sep s = split_from sep [] s"

fun lines_from :: "string \<Rightarrow> string \<Rightarrow> string list" where
  "lines_from cur [] = (if cur = [] then [] else [cur])"
| "lines_from cur (c # cs) =
     (if c = CHR 0x0A then (cur @ [c]) # lines_from [] cs else lines_from (cur @ [c]) cs)"

definition file_lines :: "string \<Rightarrow> string list" where
  \<comment> \<open>iterating over a file: one line at a time, each with its newline\<close>
  "file_lines content = lines_from [] content"

definition getitem :: "'a list \<Rightarrow> nat \<Rightarrow> error + 'a" where
  \<comment> \<open>\<^verbatim>\<open>values[i]\<close> for a constant index \<open>i \<ge> 0\<close>\<close>
  "getitem xs i = (if i < length xs then Inr (xs ! i) else Inl IndexError)"

definition truthy_str :: "string option \<Rightarrow> bool" where
  \<comment> \<open>the truth value of an optional string: \<^verbatim>\<open>None\<close> and \<^verbatim>\<open>''\<close> are false\<close>
  "truthy_str s = (case s of None \<Rightarrow> False | Some u \<Rightarrow> u \<noteq> [])"

section \<open>get_token\<close>

text \<open>
  The loop of \<^verbatim>\<open>get_token\<close> over the lines of the token file. \<open>host\<close> is already the fully
  qualified name. The result \<open>None\<close> is the pair \<^verbatim>\<open>(None, None)\<close>.
\<close>

fun scan_entries ::
  "env \<Rightarrow> string \<Rightarrow> int \<Rightarrow> string option \<Rightarrow> string list \<Rightarrow> error + (string \<times> string) option"
where
  "scan_entries env host port preferred_user [] = Inr None"
| "scan_entries env host port preferred_user (entry # rest) =
     (let values = split CHR '';'' (strip entry) in
      case getitem values 0 of Inl e \<Rightarrow> Inl e
      | Inr v0 \<Rightarrow>
        if getfqdn env v0 \<noteq> host then scan_entries env host port preferred_user rest
        else (case getitem values 1 of Inl e \<Rightarrow> Inl e
          | Inr v1 \<Rightarrow>
            if v1 \<noteq> str_int port then scan_entries env host port preferred_user rest
            else if truthy_str preferred_user then
              (case getitem values 2 of Inl e \<Rightarrow> Inl e
               | Inr v2 \<Rightarrow>
                 if v2 \<noteq> the preferred_user
                 then scan_entries env host port preferred_user rest
                 else (case getitem values 3 of Inl e \<Rightarrow> Inl e
                       | Inr v3 \<Rightarrow> Inr (Some (v3, v2))))
            else (case getitem values 3 of Inl e \<Rightarrow> Inl e
                  | Inr v3 \<Rightarrow>
                    (case getitem values 2 of Inl e \<Rightarrow> Inl e
                     | Inr v2 \<Rightarrow> Inr (Some (v3, v2))))))"

definition get_token ::
  "env \<Rightarrow> string option \<Rightarrow> string \<Rightarrow> int \<Rightarrow> string option \<Rightarrow> error + (string \<times> string) option"
where
  \<comment> \<open>\<open>ltoken_file\<close> is the content of \<^verbatim>\<open>~/.klocwork/ltoken\<close>, \<open>None\<close> when it cannot be opened\<close>
  "get_token env ltoken_file host port preferred_user =
     (case ltoken_file of
        None \<Rightarrow> Inl IOError
      | Some content \<Rightarrow>
          scan_entries env (getfqdn env host) port preferred_user (file_lines content))"

text \<open>
  The reading of the specification: the fields of each line, and the first line whose
  normalized host and whose port match, restricted to the preferred user when one is given.
\<close>

definition entry_fields :: "string \<Rightarrow> string list" where
  "entry_fields entry = split CHR '';'' (strip entry)"

definition entry_matches :: "env \<Rightarrow> string \<Rightarrow> int \<Rightarrow> string option \<Rightarrow> string list \<Rightarrow> bool" where
  "entry_matches env host port preferred_user vs =
     (getfqdn env (vs ! 0) = getfqdn env host \<and> vs ! 1 = str_int port
      \<and> (truthy_str preferred_user \<longrightarrow> vs ! 2 = the preferred_user))"

definition first_match ::
  "env \<Rightarrow> string list list \<Rightarrow> string \<Rightarrow> int \<Rightarrow> string option \<Rightarrow> (string \<times> string) option"
where
  "first_match env entries host port preferred_user =
     map_option (\<lambda>vs. (vs ! 3, vs ! 2))
       (find (entry_matches env host port preferred_user) entries)"

section \<open>strip_path\<close>

definition occurs_at :: "string \<Rightarrow> string \<Rightarrow> nat \<Rightarrow> bool" where
  "occurs_at s sub i = (take (length sub) (drop i s) = sub)"

fun rfind_from :: "string \<Rightarrow> string \<Rightarrow> nat \<Rightarrow> int" where
  "rfind_from s sub 0 = (if occurs_at s sub 0 then 0 else - 1)"
| "rfind_from s sub (Suc i) =
     (if occurs_at s sub (Suc i) then int (Suc i) else rfind_from s sub i)"

definition rfind :: "string \<Rightarrow> string \<Rightarrow> int" where
  \<comment> \<open>\<^verbatim>\<open>s.rfind(sub)\<close>: the highest index where \<open>sub\<close> starts in \<open>s\<close>, or \<open>-1\<close>\<close>
  "rfind s sub =
     (if length s < length sub then - 1 else rfind_from s sub (length s - length sub))"

fun strip_path :: "env \<Rightarrow> string \<Rightarrow> string list \<Rightarrow> string" where
  "strip_path env path [] = path"
| "strip_path env path (root # roots) =
     (let pos = rfind path (os_sep env @ normpath env root @ os_sep env) in
      if pos \<ge> 0 then drop (nat pos) path else strip_path env path roots)"

text \<open>
  The reading of the specification: an occurrence of a pattern in a path, and the
  separator-wrapped pattern of a root.
\<close>

definition occurrence :: "string \<Rightarrow> string \<Rightarrow> nat \<Rightarrow> bool" where
  "occurrence s sub i = (i + length sub \<le> length s \<and> occurs_at s sub i)"

definition pattern :: "env \<Rightarrow> string \<Rightarrow> string" where
  "pattern env root = os_sep env @ normpath env root @ os_sep env"

section \<open>fetch and multifetch\<close>

text \<open>
  The parameter dictionaries are objects that the callee updates in place, so they live in
  a store: \<open>heap\<close> maps the address of a dict to its content, \<open>fresh\<close> is the next unused
  address, and \<open>calls\<close> lists the requests built so far (the url and the dict that was
  encoded), oldest first.
\<close>

record world =
  heap :: "nat \<Rightarrow> pydict"
  fresh :: nat
  calls :: "(string \<times> pydict) list"

definition alloc :: "pydict \<Rightarrow> world \<Rightarrow> nat \<times> world" where
  \<comment> \<open>a dict literal: a new object\<close>
  "alloc d w = (fresh w, w\<lparr>heap := (heap w)(fresh w := d), fresh := Suc (fresh w)\<rparr>)"

definition dict_update :: "nat \<Rightarrow> pydict \<Rightarrow> world \<Rightarrow> world" where
  \<comment> \<open>\<^verbatim>\<open>p.update(common_params)\<close> on the dict at address \<open>p\<close>\<close>
  "dict_update p common_params w = w\<lparr>heap := (heap w)(p := heap w p ++ common_params)\<rparr>"

fun decode_lines :: "env \<Rightarrow> string list \<Rightarrow> json list \<Rightarrow> error + json list" where
  "decode_lines env [] result = Inr result"
| "decode_lines env (line # response) result =
     (case json_loads env line of
        Inl e \<Rightarrow> Inl e
      | Inr v \<Rightarrow> decode_lines env response (result @ [v]))"

definition request :: "env \<Rightarrow> string \<Rightarrow> pydict \<Rightarrow> error + json list" where
  \<comment> \<open>encode, open the url, decode every line of the response\<close>
  "request env url params =
     (case urlencode env params of
        Inl e \<Rightarrow> Inl e
      | Inr body \<Rightarrow>
          (case urlopen env url body of
             Inl e \<Rightarrow> Inl e
           | Inr response \<Rightarrow> decode_lines env response []))"

definition fetch ::
  "env \<Rightarrow> string \<Rightarrow> nat \<Rightarrow> pydict \<Rightarrow> world \<Rightarrow> (error + json list) \<times> world"
where
  "fetch env url params common_params w =
     (let w1 = dict_update params common_params w;
          w2 = w1\<lparr>calls := calls w1 @ [(url, heap w1 params)]\<rparr>
      in (request env url (heap w2 params), w2))"

definition MultiFetchHelper_fetch ::
  "env \<Rightarrow> string \<Rightarrow> nat \<Rightarrow> world \<Rightarrow> (error + json list) \<times> world"
where
  "MultiFetchHelper_fetch env url params w =
     (let w1 = w\<lparr>calls := calls w @ [(url, heap w params)]\<rparr>
      in (request env url (heap w1 params), w1))"

definition MAX_PARALLEL_FETCH_COUNT :: nat where
  "MAX_PARALLEL_FETCH_COUNT = 20"

fun update_each :: "nat list \<Rightarrow> pydict \<Rightarrow> world \<Rightarrow> world" where
  \<comment> \<open>\<^verbatim>\<open>for p in params: p.update(common_params)\<close>\<close>
  "update_each [] common_params w = w"
| "update_each (p # params) common_params w =
     update_each params common_params (dict_update p common_params w)"

fun run_tasks ::
  "env \<Rightarrow> string \<Rightarrow> nat list \<Rightarrow> world \<Rightarrow> (error + json list) list \<times> world"
where
  \<comment> \<open>one call of the worker function for each item, in the order of submission\<close>
  "run_tasks env url [] w = ([], w)"
| "run_tasks env url (p # params) w =
     (let (r, w1) = MultiFetchHelper_fetch env url p w;
          (rs, w2) = run_tasks env url params w1
      in (r # rs, w2))"

fun unordered :: "nat list \<Rightarrow> 'a list \<Rightarrow> 'a list" where
  \<comment> \<open>the order of completion: each number picks one of the results not yet yielded\<close>
  "unordered [] xs = xs"
| "unordered (n # ns) xs =
     (if xs = [] then []
      else let i = n mod length xs
           in xs ! i # unordered ns (take i xs @ drop (Suc i) xs))"

text \<open>
  What \<^verbatim>\<open>multifetch\<close> returns: the size of the thread pool it created (\<open>None\<close> when it
  created none) and the results in the order in which the iterator yields them. A task
  that raised yields its exception.
\<close>

record pool_run =
  pool_size :: "nat option"
  yielded :: "(error + json list) list"

definition multifetch ::
  "env \<Rightarrow> string \<Rightarrow> nat list \<Rightarrow> pydict \<Rightarrow> world \<Rightarrow> pool_run \<times> world"
where
  "multifetch env url params common_params w =
     (let w1 = update_each params common_params w;
          threads = min (length params) MAX_PARALLEL_FETCH_COUNT
      in if threads > 0 then
           (let (rs, w2) = run_tasks env url params w1
            in (\<lparr>pool_size = Some threads, yielded = unordered (completion env) rs\<rparr>, w2))
         else (\<lparr>pool_size = None, yielded = []\<rparr>, w1))"

text \<open>
  The reading of the specification: the same requests issued one after the other with
  \<open>fetch\<close>, keeping the outcome of each.
\<close>

fun serial_fetch ::
  "env \<Rightarrow> string \<Rightarrow> nat list \<Rightarrow> pydict \<Rightarrow> world \<Rightarrow> (error + json list) list \<times> world"
where
  "serial_fetch env url [] common_params w = ([], w)"
| "serial_fetch env url (p # params) common_params w =
     (let (r, w1) = fetch env url p common_params w;
          (rs, w2) = serial_fetch env url params common_params w1
      in (r # rs, w2))"

section \<open>KlocworkWebApi\<close>

record api =
  api_url :: string
  api_ltoken :: string
  api_user :: string

definition KlocworkWebApi ::
  "env \<Rightarrow> string option \<Rightarrow> string \<Rightarrow> int \<Rightarrow> string option \<Rightarrow> error + api"
where
  \<comment> \<open>the constructor: an empty or missing token raises \<^verbatim>\<open>RuntimeError\<close>\<close>
  "KlocworkWebApi env ltoken_file host port preferred_user =
     (case get_token env ltoken_file host port preferred_user of
        Inl e \<Rightarrow> Inl e
      | Inr None \<Rightarrow> Inl RuntimeError
      | Inr (Some (token, usr)) \<Rightarrow>
          if token = [] then Inl RuntimeError
          else Inr \<lparr>api_url = ''http://'' @ host @ '':'' @ str_int port @ ''/review/api'',
                    api_ltoken = token, api_user = usr\<rparr>)"

subsection \<open>The issue table\<close>

text \<open>
  The table maps a Python \<^verbatim>\<open>str\<close> to the dict of an issue. It is kept as a list of
  entries in the order of insertion, so that \<^verbatim>\<open>values()\<close> can list it; Python 2 fixes no
  order, and no statement below depends on it.
\<close>

type_synonym table = "(string \<times> pydict) list"

definition py_str :: "env \<Rightarrow> json \<Rightarrow> error + string" where
  \<comment> \<open>\<^verbatim>\<open>str(v)\<close>; on a unicode string it encodes to ASCII\<close>
  "py_str env v =
     (case v of
        JNull \<Rightarrow> Inr ''None''
      | JBool b \<Rightarrow> Inr (if b then ''True'' else ''False'')
      | JInt i \<Rightarrow> Inr (str_int i)
      | JStr s \<Rightarrow>
          if list_all (\<lambda>c. (of_char c :: nat) < 128) s then Inr s else Inl UnicodeEncodeError
      | JList xs \<Rightarrow> Inr (str_container env v)
      | JObj d \<Rightarrow> Inr (str_container env v))"

definition table_getitem :: "table \<Rightarrow> json \<Rightarrow> error + string \<times> pydict" where
  \<comment> \<open>\<^verbatim>\<open>issues_table[k]\<close>: a list or a dict is unhashable; a unicode string equals the
      \<^verbatim>\<open>str\<close> key of the same characters; no other value equals a \<^verbatim>\<open>str\<close>\<close>
  "table_getitem t k =
     (case k of
        JStr s \<Rightarrow> (case map_of t s of None \<Rightarrow> Inl KeyError | Some issue \<Rightarrow> Inr (s, issue))
      | JList xs \<Rightarrow> Inl TypeError
      | JObj d \<Rightarrow> Inl TypeError
      | _ \<Rightarrow> Inl KeyError)"

fun build_table ::
  "env \<Rightarrow> string \<Rightarrow> json list \<Rightarrow> table \<Rightarrow> nat list \<Rightarrow> world \<Rightarrow> (error + table \<times> nat list) \<times> world"
where
  \<comment> \<open>the loop over \<^verbatim>\<open>issues_response\<close>: the table and the detail requests\<close>
  "build_table env project [] issues_table issue_details_requests w =
     (Inr (issues_table, issue_details_requests), w)"
| "build_table env project (issue # rest) issues_table issue_details_requests w =
     (case issue of
        JObj d \<Rightarrow>
          (case d ''id'' of
             None \<Rightarrow> (Inl KeyError, w)
           | Some i \<Rightarrow>
               (case py_str env i of
                  Inl e \<Rightarrow> (Inl e, w)
                | Inr key \<Rightarrow>
                    (let (r, w1) = alloc [''action'' \<mapsto> JStr ''issue_details'',
                                          ''project'' \<mapsto> JStr project, ''id'' \<mapsto> i] w
                     in build_table env project rest (AList.update key d issues_table)
                          (issue_details_requests @ [r]) w1)))
      | _ \<Rightarrow> (Inl TypeError, w))"

fun merge_response :: "table \<Rightarrow> json list \<Rightarrow> error + table" where
  \<comment> \<open>\<^verbatim>\<open>for r in response: issues_table[r['id']].update(r)\<close>\<close>
  "merge_response t [] = Inr t"
| "merge_response t (r # response) =
     (case r of
        JObj d \<Rightarrow>
          (case d ''id'' of
             None \<Rightarrow> Inl KeyError
           | Some k \<Rightarrow>
               (case table_getitem t k of
                  Inl e \<Rightarrow> Inl e
                | Inr (key, issue) \<Rightarrow> merge_response (AList.update key (issue ++ d) t) response))
      | _ \<Rightarrow> Inl TypeError)"

fun merge_details :: "table \<Rightarrow> (error + json list) list \<Rightarrow> error + table" where
  \<comment> \<open>\<^verbatim>\<open>for response in issues_details_response\<close>: a task that raised raises here\<close>
  "merge_details t [] = Inr t"
| "merge_details t (response # rest) =
     (case response of
        Inl e \<Rightarrow> Inl e
      | Inr rs \<Rightarrow>
          (case merge_response t rs of
             Inl e \<Rightarrow> Inl e
           | Inr t1 \<Rightarrow> merge_details t1 rest))"

subsection \<open>The merge loop with its events\<close>

text \<open>
  The merge loop again, with the events of the orchestrating thread written down in the
  order in which they happen: \<open>Returned n\<close> when the iterator hands over its \<open>n\<close>-th
  response, \<open>Merged n key\<close> when a record of that response is merged into the entry \<open>key\<close>
  of the table. A task that raised hands over no response.
\<close>

datatype event = Returned nat | Merged nat string

fun merge_response_events :: "nat \<Rightarrow> table \<Rightarrow> json list \<Rightarrow> (error + table) \<times> event list" where
  "merge_response_events n t [] = (Inr t, [])"
| "merge_response_events n t (r # response) =
     (case r of
        JObj d \<Rightarrow>
          (case d ''id'' of
             None \<Rightarrow> (Inl KeyError, [])
           | Some k \<Rightarrow>
               (case table_getitem t k of
                  Inl e \<Rightarrow> (Inl e, [])
                | Inr (key, issue) \<Rightarrow>
                    (let (res, evs) =
                           merge_response_events n (AList.update key (issue ++ d) t) response
                     in (res, Merged n key # evs))))
      | _ \<Rightarrow> (Inl TypeError, []))"

fun merge_details_events ::
  "nat \<Rightarrow> table \<Rightarrow> (error + json list) list \<Rightarrow> (error + table) \<times> event list"
where
  "merge_details_events n t [] = (Inr t, [])"
| "merge_details_events n t (response # rest) =
     (case response of
        Inl e \<Rightarrow> (Inl e, [])
      | Inr rs \<Rightarrow>
          (case merge_response_events n t rs of
             (Inl e, evs) \<Rightarrow> (Inl e, Returned n # evs)
           | (Inr t1, evs) \<Rightarrow>
               (let (res, evs1) = merge_details_events (Suc n) t1 rest
                in (res, Returned n # evs @ evs1))))"

text \<open>
  The reading of the specification: every response is returned before the first merge;
  and the weaker order, that each merge follows the return of its own response.
\<close>

fun is_returned :: "event \<Rightarrow> bool" where
  "is_returned (Returned n) = True"
| "is_returned (Merged n key) = False"

fun is_merged :: "event \<Rightarrow> bool" where
  "is_merged (Returned n) = False"
| "is_merged (Merged n key) = True"

definition drained_before_merge :: "event list \<Rightarrow> bool" where
  "drained_before_merge evs = list_all is_merged (dropWhile is_returned evs)"

fun merge_after_own_return :: "nat set \<Rightarrow> event list \<Rightarrow> bool" where
  "merge_after_own_return seen [] = True"
| "merge_after_own_return seen (Returned n # evs) = merge_after_own_return (insert n seen) evs"
| "merge_after_own_return seen (Merged n key # evs) =
     (n \<in> seen \<and> merge_after_own_return seen evs)"

subsection \<open>The derived fields\<close>

definition truthy :: "json \<Rightarrow> bool" where
  "truthy v =
     (case v of
        JNull \<Rightarrow> False
      | JBool b \<Rightarrow> b
      | JInt i \<Rightarrow> i \<noteq> 0
      | JStr s \<Rightarrow> s \<noteq> []
      | JList xs \<Rightarrow> xs \<noteq> []
      | JObj d \<Rightarrow> d \<noteq> Map.empty)"

definition latest_comment :: "pydict \<Rightarrow> error + json" where
  \<comment> \<open>\<^verbatim>\<open>issue.get('history', [{}])[0].get('comment', '')\<close>\<close>
  "latest_comment issue =
     (case issue ''history'' of
        None \<Rightarrow> Inr (JStr [])
      | Some (JList []) \<Rightarrow> Inl IndexError
      | Some (JList (h # hs)) \<Rightarrow>
          (case h of
             JObj d \<Rightarrow> (case d ''comment'' of None \<Rightarrow> Inr (JStr []) | Some c \<Rightarrow> Inr c)
           | _ \<Rightarrow> Inl AttributeError)
      | Some (JStr s) \<Rightarrow> (if s = [] then Inl IndexError else Inl AttributeError)
      | Some (JObj d) \<Rightarrow> Inl KeyError
      | Some _ \<Rightarrow> Inl TypeError)"

definition replace_backslash :: "string \<Rightarrow> string" where
  \<comment> \<open>\<^verbatim>\<open>relpath.replace('\\', '/')\<close>\<close>
  "replace_backslash s = map (\<lambda>c. if c = CHR 0x5C then CHR ''/'' else c) s"

definition derive_issue :: "env \<Rightarrow> string option \<Rightarrow> pydict \<Rightarrow> error + pydict" where
  \<comment> \<open>the body of the loop over the values of the table; \<^verbatim>\<open>normpath\<close> on a value that
      is not a string raises \<^verbatim>\<open>AttributeError\<close>\<close>
  "derive_issue env project_root issue0 =
     (case latest_comment issue0 of
        Inl e \<Rightarrow> Inl e
      | Inr c \<Rightarrow>
          (let issue1 = issue0(''comment'' \<mapsto> c) in
           case (if \<not> truthy c then Inr ''no''
                 else (case issue1 ''code'' of
                         None \<Rightarrow> Inl KeyError
                       | Some code \<Rightarrow> Inr (if code = JStr ''Analyze'' then ''no'' else ''yes'')))
           of Inl e \<Rightarrow> Inl e
            | Inr dispositioned \<Rightarrow>
                (let issue2 = issue1(''dispositioned'' \<mapsto> JStr dispositioned) in
                 case issue2 ''location'' of
                   None \<Rightarrow> Inl KeyError
                 | Some (JStr loc) \<Rightarrow>
                     (let location = normpath env loc;
                          rel = (if truthy_str project_root
                                 then (case relpath env location (the project_root) of
                                         None \<Rightarrow> location
                                       | Some r \<Rightarrow> r)
                                 else location)
                      in Inr (issue2(''location'' \<mapsto> JStr (replace_backslash rel))))
                 | Some _ \<Rightarrow> Inl AttributeError)))"

fun derive_all :: "env \<Rightarrow> string option \<Rightarrow> pydict list \<Rightarrow> error + pydict list" where
  "derive_all env project_root [] = Inr []"
| "derive_all env project_root (issue # rest) =
     (case derive_issue env project_root issue of
        Inl e \<Rightarrow> Inl e
      | Inr issue1 \<Rightarrow>
          (case derive_all env project_root rest of
             Inl e \<Rightarrow> Inl e
           | Inr issues \<Rightarrow> Inr (issue1 # issues)))"

subsection \<open>get_klocwork_issues\<close>

definition get_klocwork_issues ::
  "env \<Rightarrow> api \<Rightarrow> string \<Rightarrow> string \<Rightarrow> string option \<Rightarrow> world \<Rightarrow> (error + pydict list) \<times> world"
where
  "get_klocwork_issues env self build project project_root w =
     (let common = [''user'' \<mapsto> JStr (api_user self), ''ltoken'' \<mapsto> JStr (api_ltoken self)];
          (search, w1) = alloc [''action'' \<mapsto> JStr ''search'', ''project'' \<mapsto> JStr project,
                                ''build'' \<mapsto> JStr build] w;
          (issues_response, w2) = fetch env (api_url self) search common w1
      in case issues_response of
           Inl e \<Rightarrow> (Inl e, w2)
         | Inr issues \<Rightarrow>
             (case build_table env project issues [] [] w2 of
                (Inl e, w3) \<Rightarrow> (Inl e, w3)
              | (Inr (issues_table, issue_details_requests), w3) \<Rightarrow>
                  (let (issues_details_response, w4) =
                         multifetch env (api_url self) issue_details_requests common w3
                   in case merge_details issues_table (yielded issues_details_response) of
                        Inl e \<Rightarrow> (Inl e, w4)
                      | Inr merged \<Rightarrow> (derive_all env project_root (map snd merged), w4))))"

definition get_klocwork_checkers ::
  "env \<Rightarrow> api \<Rightarrow> string \<Rightarrow> world \<Rightarrow> (error + json list) \<times> world"
where
  "get_klocwork_checkers env self project w =
     (let common = [''user'' \<mapsto> JStr (api_user self), ''ltoken'' \<mapsto> JStr (api_ltoken self)];
          (p, w1) = alloc [''action'' \<mapsto> JStr ''defect_types'', ''project'' \<mapsto> JStr project] w
      in fetch env (api_url self) p common w1)"

section \<open>A concrete environment\<close>

text \<open>
  The examples below run on a POSIX platform: \<open>posix_normpath\<close> follows
  \<^verbatim>\<open>posixpath.normpath\<close>, and the server is one that knows a single issue.
\<close>

fun join :: "string \<Rightarrow> string list \<Rightarrow> string" where
  "join sep [] = []"
| "join sep [x] = x"
| "join sep (x # y # ys) = x @ sep @ join sep (y # ys)"

definition norm_step :: "nat \<Rightarrow> string list \<Rightarrow> string \<Rightarrow> string list" where
  "norm_step initial_slashes new_comps part =
     (if part = [] \<or> part = ''.'' then new_comps
      else if part \<noteq> ''..'' \<or> (initial_slashes = 0 \<and> new_comps = [])
              \<or> (new_comps \<noteq> [] \<and> last new_comps = ''..'')
        then new_comps @ [part]
      else if new_comps \<noteq> [] then butlast new_comps
      else new_comps)"

definition posix_normpath :: "string \<Rightarrow> string" where
  "posix_normpath path =
     (if path = [] then ''.''
      else let initial_slashes =
                 (if take 1 path = ''/''
                  then (if take 2 path = ''//'' \<and> take 3 path \<noteq> ''///'' then 2 else 1)
                  else 0);
               comps = foldl (norm_step initial_slashes) [] (split CHR ''/'' path);
               p = replicate initial_slashes CHR ''/'' @ join ''/'' comps
           in if p = [] then ''.'' else p)"

definition show_param :: "json \<Rightarrow> string" where
  "show_param v = (case v of JStr s \<Rightarrow> s | JInt i \<Rightarrow> str_int i | _ \<Rightarrow> [])"

definition test_urlencode :: "pydict \<Rightarrow> error + string" where
  "test_urlencode p =
     Inr (concat (map (\<lambda>k. case p k of None \<Rightarrow> [] | Some v \<Rightarrow> k @ ''='' @ show_param v @ ''&'')
            [''action'', ''project'', ''build'', ''id'', ''user'', ''ltoken'']))"

definition test_urlopen :: "string \<Rightarrow> string \<Rightarrow> error + string list" where
  "test_urlopen url body =
     (if body = ''action=search&project=P&build=B&user=u&ltoken=t&'' then Inr [''S1'']
      else if body = ''action=issue_details&project=P&id=1&user=u&ltoken=t&'' then Inr [''D1'']
      else Inl URLError)"

definition test_search_record :: pydict where
  "test_search_record =
     [''id'' \<mapsto> JInt 1, ''code'' \<mapsto> JStr ''Analyze'', ''location'' \<mapsto> JStr ''/a/b/c'',
      ''history'' \<mapsto> JList []]"

definition test_detail_record :: pydict where
  "test_detail_record = [''id'' \<mapsto> JStr ''1'', ''severity'' \<mapsto> JStr ''High'']"

definition test_loads :: "string \<Rightarrow> error + json" where
  "test_loads line =
     (if line = ''S1'' then Inr (JObj test_search_record)
      else if line = ''D1'' then Inr (JObj test_detail_record)
      else Inl ValueError)"

definition test_env :: env where
  "test_env =
     \<lparr>getfqdn = (\<lambda>h. h), os_sep = ''/'', normpath = posix_normpath,
      relpath = (\<lambda>p start. None), urlencode = test_urlencode, urlopen = test_urlopen,
      json_loads = test_loads, str_container = (\<lambda>v. []), completion = []\<rparr>"

definition test_api :: api where
  "test_api = \<lparr>api_url = ''http://kw:8080/review/api'', api_ltoken = ''t'', api_user = ''u''\<rparr>"

definition test_world :: world where
  "test_world = \<lparr>heap = (\<lambda>a. Map.empty), fresh = 0, calls = []\<rparr>"

definition test_common :: pydict where
  "test_common = [''user'' \<mapsto> JStr ''u'', ''ltoken'' \<mapsto> JStr ''t'']"

definition test_params_world :: world where
  "test_params_world =
     \<lparr>heap = (\<lambda>a. if a = 0 then [''action'' \<mapsto> JStr ''search'', ''user'' \<mapsto> JStr ''nobody'']
                   else if a = 1 then [''action'' \<mapsto> JStr ''issue_details'', ''id'' \<mapsto> JInt 1]
                   else Map.empty),
      fresh = 2, calls = []\<rparr>"

text \<open>
  The reading of the specification: a JSON value is a key of the table when it is the
  string of one of its keys; the field of an issue that was assembled.
\<close>

definition is_key :: "table \<Rightarrow> json \<Rightarrow> bool" where
  "is_key t k = (case k of JStr s \<Rightarrow> s \<in> fst ` set t | _ \<Rightarrow> False)"

definition field_of :: "error + pydict \<Rightarrow> string \<Rightarrow> error + json option" where
  "field_of r k = (case r of Inl e \<Rightarrow> Inl e | Inr issue \<Rightarrow> Inr (issue k))"

definition test_table :: table where
  "test_table = [(''1'', test_search_record)]"

definition test_table2 :: table where
  "test_table2 = [(''1'', test_search_record), (''2'', test_search_record(''id'' \<mapsto> JInt 2))]"

definition test_fixed_issue :: pydict where
  "test_fixed_issue =
     [''history'' \<mapsto> JList [JObj [''comment'' \<mapsto> JStr ''fixed'']], ''code'' \<mapsto> JStr ''Fix'',
      ''location'' \<mapsto> JStr ''/a/b/c'']"

definition test_null_comment_issue :: pydict where
  "test_null_comment_issue =
     [''history'' \<mapsto> JList [JObj [''comment'' \<mapsto> JNull]], ''code'' \<mapsto> JStr ''Fix'',
      ''location'' \<mapsto> JStr ''/a/b/c'']"

section \<open>Properties of strip_path\<close>



lemma occurs_at_bound: "occurs_at s sub i \<Longrightarrow> i \<le> length s \<Longrightarrow> i + length sub \<le> length s"
  unfolding occurs_at_def
  by (metis add.commute le_diff_conv2 length_drop length_take min.cobounded2 min_def nat_le_linear)

lemma rfind_from_none: "(rfind_from s sub n = - 1) = (\<forall>i\<le>n. \<not> occurs_at s sub i)"
  by (induction n) (auto simp: le_Suc_eq)

lemma rfind_from_range: "rfind_from s sub n = - 1 \<or> (\<exists>p\<le>n. rfind_from s sub n = int p)"
  by (induction n) (auto simp: le_Suc_eq)

lemma rfind_from_some:
  "rfind_from s sub n = int p \<Longrightarrow>
     p \<le> n \<and> occurs_at s sub p \<and> (\<forall>j. p < j \<and> j \<le> n \<longrightarrow> \<not> occurs_at s sub j)"
  by (induction n) (auto simp del: of_nat_Suc simp: le_Suc_eq split: if_splits)

lemma rfind_none: "(rfind s sub = - 1) = (\<forall>i. \<not> occurrence s sub i)"
  unfolding rfind_def occurrence_def
  by (auto simp: rfind_from_none)

lemma rfind_range: "rfind s sub = - 1 \<or> (\<exists>p. rfind s sub = int p)"
  unfolding rfind_def using rfind_from_range [of s sub "length s - length sub"] by auto

lemma rfind_some:
  "rfind s sub = int p \<Longrightarrow> occurrence s sub p \<and> (\<forall>j>p. \<not> occurrence s sub j)"
  unfolding rfind_def occurrence_def
  by (auto split: if_splits dest!: rfind_from_some)


lemma occurrence_drop:
  "p \<le> length s \<Longrightarrow> occurrence (drop p s) sub j = occurrence s sub (p + j)"
  unfolding occurrence_def occurs_at_def by (auto simp: add.commute)

lemma rfind_drop:
  assumes "rfind s sub = int p"
  shows "rfind (drop p s) sub = 0"
proof -
  from rfind_some [OF assms]
  have occ: "occurrence s sub p" and last: "\<forall>j>p. \<not> occurrence s sub j" by auto
  from occ have p: "p \<le> length s" by (simp add: occurrence_def)
  have here: "occurrence (drop p s) sub 0" using occ p by (simp add: occurrence_drop)
  have later: "\<not> occurrence (drop p s) sub j" if "0 < j" for j
    using last p that by (simp add: occurrence_drop)
  from rfind_range [of "drop p s" sub] show ?thesis
  proof
    assume "rfind (drop p s) sub = - 1"
    with here show ?thesis by (simp add: rfind_none)
  next
    assume "\<exists>q. rfind (drop p s) sub = int q"
    then obtain q where q: "rfind (drop p s) sub = int q" ..
    from rfind_some [OF q] later have "q = 0" by (cases q) auto
    with q show ?thesis by simp
  qed
qed

lemma rfind_drop_none:
  assumes "rfind s sub = - 1"
  shows "rfind (drop p s) sub = - 1"
proof (cases "p \<le> length s")
  case True
  with assms show ?thesis by (simp add: rfind_none occurrence_drop)
next
  case False
  then have "drop p s = drop (length s) s" by simp
  moreover have "occurrence (drop (length s) s) sub j = occurrence s sub (length s + j)" for j
    by (rule occurrence_drop) simp
  ultimately show ?thesis using assms by (simp only: rfind_none) simp
qed

lemma strip_path_unmatched:
  "\<forall>root\<in>set roots. rfind path (pattern env root) = - 1 \<Longrightarrow> strip_path env path roots = path"
  by (induction roots) (auto simp: pattern_def)

lemma strip_path_first_match:
  "\<exists>root\<in>set roots. rfind path (pattern env root) \<noteq> - 1 \<Longrightarrow>
   \<exists>pre root post p. roots = pre @ root # post
      \<and> (\<forall>r\<in>set pre. rfind path (pattern env r) = - 1)
      \<and> rfind path (pattern env root) = int p
      \<and> strip_path env path roots = drop p path"
proof (induction roots)
  case Nil
  then show ?case by simp
next
  case (Cons root roots)
  show ?case
  proof (cases "rfind path (pattern env root) = - 1")
    case True
    with Cons.prems have "\<exists>r\<in>set roots. rfind path (pattern env r) \<noteq> - 1" by auto
    from Cons.IH [OF this] obtain pre r post p where
      roots: "roots = pre @ r # post"
      and pre: "\<forall>q\<in>set pre. rfind path (pattern env q) = - 1"
      and p: "rfind path (pattern env r) = int p"
      and res: "strip_path env path roots = drop p path"
      by blast
    from roots have "root # roots = (root # pre) @ r # post" by simp
    moreover from pre True have "\<forall>q\<in>set (root # pre). rfind path (pattern env q) = - 1"
      by simp
    moreover from True res have "strip_path env path (root # roots) = drop p path"
      by (simp add: pattern_def)
    ultimately show ?thesis using p by blast
  next
    case False
    with rfind_range [of path "pattern env root"]
    obtain p where p: "rfind path (pattern env root) = int p" by auto
    then have "strip_path env path (root # roots) = drop p path"
      by (simp add: pattern_def)
    moreover have "root # roots = [] @ root # roots" by simp
    moreover have "\<forall>q\<in>set []. rfind path (pattern env q) = - 1" by simp
    ultimately show ?thesis using p by blast
  qed
qed

lemma strip_path_suffix: "\<exists>p. strip_path env path roots = drop p path"
proof (induction roots)
  case Nil
  have "strip_path env path [] = drop 0 path" by simp
  then show ?case by (rule exI)
next
  case (Cons root roots)
  then show ?case by (auto simp: Let_def)
qed

lemma strip_path_idem: "strip_path env (strip_path env path roots) roots = strip_path env path roots"
proof (induction roots)
  case Nil
  then show ?case by simp
next
  case (Cons root roots)
  let ?pat = "os_sep env @ normpath env root @ os_sep env"
  from rfind_range [of path ?pat] show ?case
  proof
    assume none: "rfind path ?pat = - 1"
    obtain q where "strip_path env path roots = drop q path"
      using strip_path_suffix by blast
    with none have "rfind (strip_path env path roots) ?pat = - 1"
      by (simp add: rfind_drop_none)
    with none Cons show ?thesis by simp
  next
    assume "\<exists>p. rfind path ?pat = int p"
    then obtain p where p: "rfind path ?pat = int p" ..
    with rfind_drop [OF p] show ?thesis by simp
  qed
qed

text \<open>
  Claim C8. \<open>strip_path\<close> is idempotent. A path in which no separator-wrapped root
  occurs is returned as it is. Otherwise the roots are tried in the order of the list: the
  result is the part of the path from the last (rightmost) occurrence of the pattern of
  the first root that occurs in the path, it starts with that pattern, and stripping it
  again with the same roots changes nothing.
\<close>

theorem strip_path_idempotent:
  "strip_path env (strip_path env path roots) roots = strip_path env path roots
   \<and> ((\<forall>root\<in>set roots. \<forall>i. \<not> occurrence path (pattern env root) i)
        \<longrightarrow> strip_path env path roots = path)
   \<and> ((\<exists>root\<in>set roots. \<exists>i. occurrence path (pattern env root) i)
        \<longrightarrow> (\<exists>pre root post p.
               roots = pre @ root # post
               \<and> (\<forall>r\<in>set pre. \<forall>i. \<not> occurrence path (pattern env r) i)
               \<and> occurrence path (pattern env root) p
               \<and> (\<forall>j>p. \<not> occurrence path (pattern env root) j)
               \<and> strip_path env path roots = drop p path
               \<and> take (length (pattern env root)) (strip_path env path roots)
                   = pattern env root))"
proof (intro conjI impI)
  show "strip_path env (strip_path env path roots) roots = strip_path env path roots"
    by (rule strip_path_idem)
next
  assume "\<forall>root\<in>set roots. \<forall>i. \<not> occurrence path (pattern env root) i"
  then have "\<forall>root\<in>set roots. rfind path (pattern env root) = - 1"
    by (simp add: rfind_none)
  then show "strip_path env path roots = path"
    by (rule strip_path_unmatched)
next
  assume "\<exists>root\<in>set roots. \<exists>i. occurrence path (pattern env root) i"
  then have "\<exists>root\<in>set roots. rfind path (pattern env root) \<noteq> - 1"
    by (simp add: rfind_none)
  from strip_path_first_match [OF this] obtain pre root post p where
    roots: "roots = pre @ root # post"
    and pre: "\<forall>r\<in>set pre. rfind path (pattern env r) = - 1"
    and p: "rfind path (pattern env root) = int p"
    and res: "strip_path env path roots = drop p path"
    by blast
  from pre have none: "\<forall>r\<in>set pre. \<forall>i. \<not> occurrence path (pattern env r) i"
    by (simp add: rfind_none)
  from rfind_some [OF p] have occ: "occurrence path (pattern env root) p"
    and last: "\<forall>j>p. \<not> occurrence path (pattern env root) j"
    by simp_all
  from occ res have start: "take (length (pattern env root)) (strip_path env path roots)
                   = pattern env root"
    by (simp add: occurrence_def occurs_at_def)
  from roots none occ last res start
  show "\<exists>pre root post p.
               roots = pre @ root # post
               \<and> (\<forall>r\<in>set pre. \<forall>i. \<not> occurrence path (pattern env r) i)
               \<and> occurrence path (pattern env root) p
               \<and> (\<forall>j>p. \<not> occurrence path (pattern env root) j)
               \<and> strip_path env path roots = drop p path
               \<and> take (length (pattern env root)) (strip_path env path roots)
                   = pattern env root"
    by blast
qed

theorem strip_path_idempotent_witness:
  "occurrence ''/a/lib/b/proj/c'' (pattern test_env ''lib'') 2
   \<and> occurrence ''/a/lib/b/proj/c'' (pattern test_env ''proj'') 8
   \<and> strip_path test_env ''/a/lib/b/proj/c'' [''lib'', ''proj''] = ''/lib/b/proj/c''
   \<and> strip_path test_env ''/a/lib/b/proj/c'' [''proj'', ''lib''] = ''/proj/c''
   \<and> strip_path test_env ''/home/u/proj/src/a.c'' [''lib'', ''proj''] = ''/proj/src/a.c''
   \<and> strip_path test_env ''/lib/b/proj/c'' [''lib'', ''proj''] = ''/lib/b/proj/c''"
proof -
  have occ: "occurrence ''/a/lib/b/proj/c'' (pattern test_env ''lib'') 2"
    "occurrence ''/a/lib/b/proj/c'' (pattern test_env ''proj'') 8"
    by (simp_all add: occurrence_def occurs_at_def pattern_def test_env_def posix_normpath_def
          split_def norm_step_def)
  have res: "strip_path test_env ''/a/lib/b/proj/c'' [''lib'', ''proj''] = ''/lib/b/proj/c''"
    "strip_path test_env ''/a/lib/b/proj/c'' [''proj'', ''lib''] = ''/proj/c''"
    "strip_path test_env ''/home/u/proj/src/a.c'' [''lib'', ''proj''] = ''/proj/src/a.c''"
    by (simp_all add: rfind_def occurs_at_def test_env_def posix_normpath_def split_def
          norm_step_def)
  from strip_path_idempotent [of test_env "''/a/lib/b/proj/c''" "[''lib'', ''proj'']"]
  have "strip_path test_env (strip_path test_env ''/a/lib/b/proj/c'' [''lib'', ''proj''])
          [''lib'', ''proj'']
        = strip_path test_env ''/a/lib/b/proj/c'' [''lib'', ''proj'']"
    by (rule conjunct1)
  with occ res show ?thesis by simp
qed

section \<open>Properties of get_token\<close>


lemma scan_entries_first_match:
  "\<forall>entry\<in>set ls. 4 \<le> length (entry_fields entry) \<Longrightarrow>
   scan_entries env (getfqdn env host) port pu ls
     = Inr (first_match env (map entry_fields ls) host port pu)"
proof (induction ls)
  case Nil
  then show ?case by (simp add: first_match_def)
next
  case (Cons entry ls)
  then have len: "4 \<le> length (entry_fields entry)"
    and IH: "scan_entries env (getfqdn env host) port pu ls
               = Inr (first_match env (map entry_fields ls) host port pu)"
    by simp_all
  show ?case
    using len
    by (auto simp add: IH first_match_def entry_matches_def getitem_def
          entry_fields_def [symmetric] Let_def)
qed

text \<open>
  Claim C6, as stated, fails: a line with fewer fields than the scan reads raises
  \<^verbatim>\<open>IndexError\<close>. Here the only line has a matching host and no port field.
\<close>

theorem get_token_short_line_counterexample:
  "get_token test_env (Some ''kw'') ''kw'' 8080 None = Inl IndexError"
  by (simp add: get_token_def test_env_def file_lines_def split_def strip_def is_space_def
        getitem_def)

text \<open>
  Claim C6, amended. For every token file that can be read and whose lines all have at
  least four fields separated by semicolons, \<open>get_token\<close> returns the token and the user of
  the first line whose normalized host and whose port match, skipping the lines of another
  user when a preferred user that is not the empty string is given; it returns \<open>None\<close>
  when no line matches.
\<close>

theorem get_token_first_match:
  assumes "\<forall>entry\<in>set (file_lines content). 4 \<le> length (entry_fields entry)"
  shows "get_token env (Some content) host port preferred_user
           = Inr (first_match env (map entry_fields (file_lines content)) host port
                    preferred_user)"
  using assms by (simp add: get_token_def scan_entries_first_match)

theorem get_token_first_match_witness:
  "get_token test_env (Some ''other;8080;eve;t0\<newline>kw;8080;bob;t1\<newline>kw;8080;amy;t2\<newline>'')
        ''kw'' 8080 (Some ''amy'') = Inr (Some (''t2'', ''amy''))
   \<and> get_token test_env (Some ''other;8080;eve;t0\<newline>kw;8080;bob;t1\<newline>kw;8080;amy;t2\<newline>'')
        ''nowhere'' 8080 None = Inr None"
proof -
  let ?content = "''other;8080;eve;t0\<newline>kw;8080;bob;t1\<newline>kw;8080;amy;t2\<newline>''"
  have wf: "\<forall>entry\<in>set (file_lines ?content). 4 \<le> length (entry_fields entry)"
    by (simp add: file_lines_def entry_fields_def split_def strip_def is_space_def)
  have m1: "first_match test_env (map entry_fields (file_lines ?content)) ''kw'' 8080
              (Some ''amy'') = Some (''t2'', ''amy'')"
    by (simp add: first_match_def entry_matches_def file_lines_def entry_fields_def split_def
          strip_def is_space_def test_env_def str_int_def str_nat.simps truthy_str_def)
  have m2: "first_match test_env (map entry_fields (file_lines ?content)) ''nowhere'' 8080
              None = None"
    by (simp add: first_match_def entry_matches_def file_lines_def entry_fields_def split_def
          strip_def is_space_def test_env_def str_int_def str_nat.simps truthy_str_def)
  from m1 m2
    get_token_first_match [OF wf, of test_env "''kw''" 8080 "Some ''amy''"]
    get_token_first_match [OF wf, of test_env "''nowhere''" 8080 None]
  show ?thesis by simp
qed

section \<open>Properties of fetch and multifetch\<close>

lemma map_add_twice: "(m ++ c) ++ c = m ++ (c :: 'a \<Rightarrow> 'b option)"
  by (simp add: fun_eq_iff map_add_def split: option.splits)

lemma update_each_heap:
  "heap (update_each ps c w) a = (if a \<in> set ps then heap w a ++ c else heap w a)"
  by (induction ps arbitrary: w) (auto simp: dict_update_def map_add_twice)

lemma update_each_calls: "calls (update_each ps c w) = calls w"
  by (induction ps arbitrary: w) (auto simp: dict_update_def)

lemma update_each_fresh: "fresh (update_each ps c w) = fresh w"
  by (induction ps arbitrary: w) (auto simp: dict_update_def)

lemma run_tasks_results:
  "fst (run_tasks env url ps w) = map (\<lambda>p. request env url (heap w p)) ps"
  by (induction ps arbitrary: w)
     (simp_all add: MultiFetchHelper_fetch_def Let_def case_prod_beta)

lemma run_tasks_heap: "heap (snd (run_tasks env url ps w)) = heap w"
  by (induction ps arbitrary: w)
     (simp_all add: MultiFetchHelper_fetch_def Let_def case_prod_beta)

lemma run_tasks_calls:
  "calls (snd (run_tasks env url ps w)) = calls w @ map (\<lambda>p. (url, heap w p)) ps"
proof (induction ps arbitrary: w)
  case Nil
  then show ?case by simp
next
  case (Cons p ps)
  let ?w1 = "w\<lparr>calls := calls w @ [(url, heap w p)]\<rparr>"
  have "calls (snd (run_tasks env url ps ?w1)) = calls ?w1 @ map (\<lambda>p. (url, heap ?w1 p)) ps"
    by (rule Cons.IH)
  then show ?case
    by (simp add: MultiFetchHelper_fetch_def Let_def case_prod_beta)
qed

lemma fetch_result: "fst (fetch env url p c w) = request env url (heap w p ++ c)"
  by (simp add: fetch_def dict_update_def Let_def)

lemma fetch_heap: "heap (snd (fetch env url p c w)) = (heap w)(p := heap w p ++ c)"
  by (simp add: fetch_def dict_update_def Let_def)

lemma fetch_calls: "calls (snd (fetch env url p c w)) = calls w @ [(url, heap w p ++ c)]"
  by (simp add: fetch_def dict_update_def Let_def)

lemma serial_fetch_results:
  "fst (serial_fetch env url ps c w) = map (\<lambda>p. request env url (heap w p ++ c)) ps"
proof (induction ps arbitrary: w)
  case Nil
  then show ?case by simp
next
  case (Cons p ps)
  obtain r w1 where f: "fetch env url p c w = (r, w1)" by (cases "fetch env url p c w")
  have r: "r = request env url (heap w p ++ c)" using f fetch_result [of env url p c w] by simp
  have h: "heap w1 = (heap w)(p := heap w p ++ c)" using f fetch_heap [of env url p c w] by simp
  have "fst (serial_fetch env url ps c w1) = map (\<lambda>q. request env url (heap w1 q ++ c)) ps"
    by (rule Cons.IH)
  also have "\<dots> = map (\<lambda>q. request env url (heap w q ++ c)) ps"
    by (simp add: h map_add_twice)
  finally show ?case using f r by (simp add: case_prod_beta)
qed

lemma serial_fetch_calls:
  "calls (snd (serial_fetch env url ps c w)) = calls w @ map (\<lambda>p. (url, heap w p ++ c)) ps"
proof (induction ps arbitrary: w)
  case Nil
  then show ?case by simp
next
  case (Cons p ps)
  obtain r w1 where f: "fetch env url p c w = (r, w1)" by (cases "fetch env url p c w")
  have k: "calls w1 = calls w @ [(url, heap w p ++ c)]"
    using f fetch_calls [of env url p c w] by simp
  have h: "heap w1 = (heap w)(p := heap w p ++ c)" using f fetch_heap [of env url p c w] by simp
  have "calls (snd (serial_fetch env url ps c w1))
          = calls w1 @ map (\<lambda>q. (url, heap w1 q ++ c)) ps"
    by (rule Cons.IH)
  also have "\<dots> = calls w @ (url, heap w p ++ c) # map (\<lambda>q. (url, heap w q ++ c)) ps"
    by (simp add: h k map_add_twice)
  finally show ?case using f by (simp add: case_prod_beta)
qed

lemma mset_unordered: "mset (unordered ns xs) = mset xs"
proof (induction ns arbitrary: xs)
  case Nil
  then show ?case by simp
next
  case (Cons n ns)
  show ?case
  proof (cases "xs = []")
    case True
    then show ?thesis by simp
  next
    case False
    let ?i = "n mod length xs"
    from False have i: "?i < length xs" by simp
    have "mset xs = mset (take ?i xs @ xs ! ?i # drop (Suc ?i) xs)"
      using id_take_nth_drop [OF i] by simp
    then show ?thesis using False Cons.IH [of "take ?i xs @ drop (Suc ?i) xs"]
      by (simp add: Let_def)
  qed
qed

lemma multifetch_empty:
  "multifetch env url [] c w = (\<lparr>pool_size = None, yielded = []\<rparr>, w)"
  by (simp add: multifetch_def)

lemma multifetch_nonempty:
  "ps \<noteq> [] \<Longrightarrow>
   multifetch env url ps c w =
     (\<lparr>pool_size = Some (min (length ps) 20),
       yielded = unordered (completion env) (fst (run_tasks env url ps (update_each ps c w)))\<rparr>,
      snd (run_tasks env url ps (update_each ps c w)))"
  by (simp add: multifetch_def MAX_PARALLEL_FETCH_COUNT_def Let_def case_prod_beta)

lemma multifetch_yielded:
  "mset (yielded (fst (multifetch env url ps c w)))
     = mset (map (\<lambda>p. request env url (heap w p ++ c)) ps)"
proof (cases "ps = []")
  case True
  then show ?thesis by (simp add: multifetch_empty)
next
  case False
  have eq: "map (\<lambda>p. request env url (heap (update_each ps c w) p)) ps
          = map (\<lambda>p. request env url (heap w p ++ c)) ps"
    by (simp add: update_each_heap)
  have "mset (yielded (fst (multifetch env url ps c w)))
          = mset (fst (run_tasks env url ps (update_each ps c w)))"
    using False by (simp add: multifetch_nonempty mset_unordered)
  then show ?thesis by (simp only: run_tasks_results eq)
qed

lemma multifetch_calls:
  "calls (snd (multifetch env url ps c w)) = calls w @ map (\<lambda>p. (url, heap w p ++ c)) ps"
proof (cases "ps = []")
  case True
  then show ?thesis by (simp add: multifetch_empty)
next
  case False
  have eq: "map (\<lambda>p. (url, heap (update_each ps c w) p)) ps
          = map (\<lambda>p. (url, heap w p ++ c)) ps"
    by (simp add: update_each_heap)
  have "calls (snd (multifetch env url ps c w))
          = calls (snd (run_tasks env url ps (update_each ps c w)))"
    using False by (simp add: multifetch_nonempty)
  then show ?thesis by (simp only: run_tasks_calls update_each_calls eq)
qed

lemma multifetch_heap:
  "heap (snd (multifetch env url ps c w)) a = (if a \<in> set ps then heap w a ++ c else heap w a)"
proof (cases "ps = []")
  case True
  then show ?thesis by (simp add: multifetch_empty)
next
  case False
  then show ?thesis
    by (simp add: multifetch_nonempty run_tasks_heap update_each_heap)
qed

lemma multifetch_pool:
  "pool_size (fst (multifetch env url ps c w))
     = (if ps = [] then None else Some (min (length ps) 20))"
  by (cases "ps = []") (simp_all add: multifetch_empty multifetch_nonempty)

text \<open>
  Claim C7. The mapping that \<open>fetch\<close> encodes for its request, and each mapping that
  \<open>multifetch\<close> hands to a worker, has every key of the per-request parameters and of the
  common parameters; a key of the common parameters has the common value, and every other
  key keeps its per-request value.
\<close>

theorem fetch_merge_policy:
  "(\<exists>merged. calls (snd (fetch env url params common w)) = calls w @ [(url, merged)]
      \<and> fst (fetch env url params common w) = request env url merged
      \<and> dom merged = dom (heap w params) \<union> dom common
      \<and> (\<forall>k\<in>dom common. merged k = common k)
      \<and> (\<forall>k. k \<notin> dom common \<longrightarrow> merged k = heap w params k))
   \<and> (\<exists>ms. calls (snd (multifetch env url ps common w)) = calls w @ map (Pair url) ms
      \<and> length ms = length ps
      \<and> (\<forall>i<length ps. dom (ms ! i) = dom (heap w (ps ! i)) \<union> dom common
            \<and> (\<forall>k\<in>dom common. (ms ! i) k = common k)
            \<and> (\<forall>k. k \<notin> dom common \<longrightarrow> (ms ! i) k = heap w (ps ! i) k)))"
proof
  let ?m = "heap w params ++ common"
  have "calls (snd (fetch env url params common w)) = calls w @ [(url, ?m)]"
    by (rule fetch_calls)
  moreover have "fst (fetch env url params common w) = request env url ?m"
    by (rule fetch_result)
  moreover have "dom ?m = dom (heap w params) \<union> dom common" by auto
  moreover have "\<forall>k\<in>dom common. ?m k = common k" by (auto simp: map_add_def)
  moreover have "\<forall>k. k \<notin> dom common \<longrightarrow> ?m k = heap w params k"
    by (auto simp: map_add_def dom_def split: option.splits)
  ultimately show "\<exists>merged. calls (snd (fetch env url params common w)) = calls w @ [(url, merged)]
      \<and> fst (fetch env url params common w) = request env url merged
      \<and> dom merged = dom (heap w params) \<union> dom common
      \<and> (\<forall>k\<in>dom common. merged k = common k)
      \<and> (\<forall>k. k \<notin> dom common \<longrightarrow> merged k = heap w params k)"
    by blast
next
  let ?ms = "map (\<lambda>p. heap w p ++ common) ps"
  have "calls (snd (multifetch env url ps common w)) = calls w @ map (Pair url) ?ms"
    by (simp add: multifetch_calls comp_def)
  moreover have "length ?ms = length ps" by simp
  moreover have "\<forall>i<length ps. dom (?ms ! i) = dom (heap w (ps ! i)) \<union> dom common
            \<and> (\<forall>k\<in>dom common. (?ms ! i) k = common k)
            \<and> (\<forall>k. k \<notin> dom common \<longrightarrow> (?ms ! i) k = heap w (ps ! i) k)"
    by (auto simp: map_add_def dom_def split: option.splits)
  ultimately show "\<exists>ms. calls (snd (multifetch env url ps common w)) = calls w @ map (Pair url) ms
      \<and> length ms = length ps
      \<and> (\<forall>i<length ps. dom (ms ! i) = dom (heap w (ps ! i)) \<union> dom common
            \<and> (\<forall>k\<in>dom common. (ms ! i) k = common k)
            \<and> (\<forall>k. k \<notin> dom common \<longrightarrow> (ms ! i) k = heap w (ps ! i) k))"
    by blast
qed

theorem fetch_merge_policy_witness:
  "\<exists>merged. calls (snd (fetch test_env ''http://kw'' 0 test_common test_params_world))
                   = [(''http://kw'', merged)]
        \<and> merged ''user'' = Some (JStr ''u'')
        \<and> merged ''ltoken'' = Some (JStr ''t'')
        \<and> merged ''action'' = Some (JStr ''search'')"
proof -
  have d: "''user'' \<in> dom test_common" "''ltoken'' \<in> dom test_common"
    "''action'' \<notin> dom test_common"
    by (simp_all add: test_common_def)
  have c: "test_common ''user'' = Some (JStr ''u'')" "test_common ''ltoken'' = Some (JStr ''t'')"
    by (simp_all add: test_common_def)
  have h: "heap test_params_world 0 ''action'' = Some (JStr ''search'')"
    "calls test_params_world = []"
    by (simp_all add: test_params_world_def)
  let ?w = test_params_world
  from fetch_merge_policy [of test_env "''http://kw''" 0 test_common ?w]
  have "\<exists>merged. calls (snd (fetch test_env ''http://kw'' 0 test_common ?w))
                    = calls ?w @ [(''http://kw'', merged)]
      \<and> fst (fetch test_env ''http://kw'' 0 test_common ?w) = request test_env ''http://kw'' merged
      \<and> dom merged = dom (heap ?w 0) \<union> dom test_common
      \<and> (\<forall>k\<in>dom test_common. merged k = test_common k)
      \<and> (\<forall>k. k \<notin> dom test_common \<longrightarrow> merged k = heap ?w 0 k)"
    by (rule conjunct1)
  then obtain merged where all:
    "calls (snd (fetch test_env ''http://kw'' 0 test_common ?w))
                    = calls ?w @ [(''http://kw'', merged)]
      \<and> fst (fetch test_env ''http://kw'' 0 test_common ?w) = request test_env ''http://kw'' merged
      \<and> dom merged = dom (heap ?w 0) \<union> dom test_common
      \<and> (\<forall>k\<in>dom test_common. merged k = test_common k)
      \<and> (\<forall>k. k \<notin> dom test_common \<longrightarrow> merged k = heap ?w 0 k)" ..
  note k = all [THEN conjunct1]
  note u = all [THEN conjunct2, THEN conjunct2, THEN conjunct2, THEN conjunct1]
  note a = all [THEN conjunct2, THEN conjunct2, THEN conjunct2, THEN conjunct2]
  from u d(1) have m1: "merged ''user'' = test_common ''user''" by (rule bspec)
  from u d(2) have m2: "merged ''ltoken'' = test_common ''ltoken''" by (rule bspec)
  from a d(3) have m3: "merged ''action'' = heap test_params_world 0 ''action''" by simp
  have "calls (snd (fetch test_env ''http://kw'' 0 test_common test_params_world))
                   = [(''http://kw'', merged)]
        \<and> merged ''user'' = Some (JStr ''u'')
        \<and> merged ''ltoken'' = Some (JStr ''t'')
        \<and> merged ''action'' = Some (JStr ''search'')"
    using k m1 m2 m3 c h by simp
  then have "\<exists>merged. calls (snd (fetch test_env ''http://kw'' 0 test_common test_params_world))
                   = [(''http://kw'', merged)]
        \<and> merged ''user'' = Some (JStr ''u'')
        \<and> merged ''ltoken'' = Some (JStr ''t'')
        \<and> merged ''action'' = Some (JStr ''search'')"
    by (intro exI [of _ merged])
  then show ?thesis .
qed

text \<open>
  Claim C10. \<open>fetch\<close> and \<open>multifetch\<close> update the dicts of the caller in place: after
  the call the dict at each address passed holds the common parameters, which overwrite
  equal keys, and its other entries as before; no other dict of the store changes.
\<close>

theorem fetch_updates_in_place:
  "(\<forall>k. heap (snd (fetch env url params common w)) params k
          = (if k \<in> dom common then common k else heap w params k))
   \<and> (\<forall>a. a \<noteq> params \<longrightarrow> heap (snd (fetch env url params common w)) a = heap w a)
   \<and> (\<forall>p\<in>set ps. \<forall>k. heap (snd (multifetch env url ps common w)) p k
          = (if k \<in> dom common then common k else heap w p k))
   \<and> (\<forall>a. a \<notin> set ps \<longrightarrow> heap (snd (multifetch env url ps common w)) a = heap w a)"
  by (auto simp: fetch_heap multifetch_heap map_add_def dom_def split: option.splits)


theorem fetch_updates_in_place_witness:
  "heap (snd (fetch test_env ''http://kw'' 0 test_common test_params_world)) 0 ''user''
       = Some (JStr ''u'')
   \<and> heap (snd (fetch test_env ''http://kw'' 0 test_common test_params_world)) 1
       = heap test_params_world 1
   \<and> heap (snd (multifetch test_env ''http://kw'' [0, 1, 0] test_common test_params_world)) 1
        ''ltoken'' = Some (JStr ''t'')
   \<and> heap (snd (multifetch test_env ''http://kw'' [0, 1, 0] test_common test_params_world)) 1
        ''id'' = Some (JInt 1)
   \<and> heap (snd (multifetch test_env ''http://kw'' [0, 1, 0] test_common test_params_world)) 2
       = heap test_params_world 2"
  using fetch_updates_in_place [of test_env "''http://kw''" 0 test_common test_params_world
          "[0, 1, 0]"]
  by (simp add: test_common_def test_params_world_def)

text \<open>
  Claim C2. For \<open>k\<close> parameter dicts \<open>multifetch\<close> builds exactly \<open>k\<close> requests, on a pool of
  \<open>min k 20\<close> workers, and what it yields is, as a multiset, what \<open>k\<close> serial calls of
  \<open>fetch\<close> on the same dicts return, whatever the order of completion; the requests are
  the same too. With no dict it yields nothing, creates no pool and leaves the world,
  the list of requests included, as it was.
\<close>

theorem multifetch_refines_serial:
  "length (calls (snd (multifetch env url ps common w))) = length (calls w) + length ps
   \<and> pool_size (fst (multifetch env url ps common w))
       = (if ps = [] then None else Some (min (length ps) MAX_PARALLEL_FETCH_COUNT))
   \<and> (\<forall>n. pool_size (fst (multifetch env url ps common w)) = Some n
          \<longrightarrow> n \<le> min (length ps) 20)
   \<and> length (yielded (fst (multifetch env url ps common w))) = length ps
   \<and> mset (yielded (fst (multifetch env url ps common w)))
       = mset (fst (serial_fetch env url ps common w))
   \<and> mset (calls (snd (multifetch env url ps common w)))
       = mset (calls (snd (serial_fetch env url ps common w)))
   \<and> (ps = [] \<longrightarrow> yielded (fst (multifetch env url ps common w)) = []
          \<and> pool_size (fst (multifetch env url ps common w)) = None
          \<and> snd (multifetch env url ps common w) = w)"
proof -
  have y: "mset (yielded (fst (multifetch env url ps common w)))
             = mset (fst (serial_fetch env url ps common w))"
    by (simp only: multifetch_yielded serial_fetch_results)
  then have "size (mset (yielded (fst (multifetch env url ps common w))))
               = size (mset (fst (serial_fetch env url ps common w)))"
    by simp
  then have l: "length (yielded (fst (multifetch env url ps common w))) = length ps"
    by (simp add: serial_fetch_results)
  have c: "calls (snd (multifetch env url ps common w))
             = calls (snd (serial_fetch env url ps common w))"
    by (simp only: multifetch_calls serial_fetch_calls)
  have n: "length (calls (snd (multifetch env url ps common w))) = length (calls w) + length ps"
    by (simp add: multifetch_calls)
  have p: "pool_size (fst (multifetch env url ps common w))
       = (if ps = [] then None else Some (min (length ps) MAX_PARALLEL_FETCH_COUNT))"
    by (simp add: multifetch_pool MAX_PARALLEL_FETCH_COUNT_def)
  have b: "\<forall>n. pool_size (fst (multifetch env url ps common w)) = Some n
          \<longrightarrow> n \<le> min (length ps) 20"
    by (simp add: multifetch_pool)
  have cm: "mset (calls (snd (multifetch env url ps common w)))
       = mset (calls (snd (serial_fetch env url ps common w)))"
    by (simp only: c)
  have e: "ps = [] \<longrightarrow> yielded (fst (multifetch env url ps common w)) = []
          \<and> pool_size (fst (multifetch env url ps common w)) = None
          \<and> snd (multifetch env url ps common w) = w"
    by (simp add: multifetch_empty)
  show ?thesis using n p b l y cm e by blast
qed

theorem multifetch_refines_serial_witness:
  "pool_size (fst (multifetch test_env ''http://kw'' [0, 1, 0] test_common test_params_world))
     = Some 3
   \<and> (3::nat) \<le> min (length [0, 1, 0::nat]) 20
   \<and> length (calls (snd (multifetch test_env ''http://kw'' [0, 1, 0] test_common
                test_params_world))) = 3
   \<and> mset (yielded (fst (multifetch test_env ''http://kw'' [0, 1, 0] test_common
              test_params_world)))
       = mset (fst (serial_fetch test_env ''http://kw'' [0, 1, 0] test_common test_params_world))
   \<and> yielded (fst (multifetch test_env ''http://kw'' [] test_common test_params_world)) = []
   \<and> pool_size (fst (multifetch test_env ''http://kw'' [] test_common test_params_world)) = None
   \<and> snd (multifetch test_env ''http://kw'' [] test_common test_params_world)
       = test_params_world"
proof -
  have c: "calls test_params_world = []" by (simp add: test_params_world_def)
  from c
    multifetch_refines_serial [of test_env "''http://kw''" "[0, 1, 0]" test_common
      test_params_world]
    multifetch_refines_serial [of test_env "''http://kw''" "[]" test_common test_params_world]
  show ?thesis by (simp add: MAX_PARALLEL_FETCH_COUNT_def)
qed

section \<open>Properties of the issue assembler\<close>

lemma table_getitem_key:
  "table_getitem t k = Inr (key, issue) \<Longrightarrow> k = JStr key \<and> map_of t key = Some issue"
  by (auto simp: table_getitem_def split: json.splits option.splits)

lemma table_getitem_unknown: "\<not> is_key t k \<Longrightarrow> \<exists>e. table_getitem t k = Inl e"
  by (auto simp: table_getitem_def is_key_def map_of_eq_None_iff split: json.splits option.splits)

lemma table_getitem_known:
  "s \<in> fst ` set t \<Longrightarrow> \<exists>issue. table_getitem t (JStr s) = Inr (s, issue)"
  by (cases "map_of t s") (auto simp: table_getitem_def map_of_eq_None_iff)

lemma update_known_keys:
  "map_of t key = Some issue \<Longrightarrow> map fst (AList.update key v t) = map fst t"
  by (simp add: update_keys) (metis domI dom_map_of_conv_image_fst)

lemma merge_response_keys:
  "merge_response t rs = Inr t1 \<Longrightarrow> map fst t1 = map fst t"
proof (induction rs arbitrary: t)
  case Nil
  then show ?case by simp
next
  case (Cons r rs)
  then show ?case
    by (auto split: json.splits option.splits sum.splits
          dest!: table_getitem_key simp: update_known_keys)
qed

lemma merge_details_keys:
  "merge_details t rss = Inr t1 \<Longrightarrow> map fst t1 = map fst t"
proof (induction rss arbitrary: t)
  case Nil
  then show ?case by simp
next
  case (Cons rs rss)
  then show ?case
    by (auto split: sum.splits dest!: merge_response_keys)
qed

lemma is_key_cong: "map fst t1 = map fst t \<Longrightarrow> is_key t1 k = is_key t k"
  by (simp add: is_key_def split: json.splits) (metis list.set_map)

lemma merge_response_unknown:
  "JObj d \<in> set rs \<Longrightarrow> d ''id'' = Some k \<Longrightarrow> \<not> is_key t k \<Longrightarrow>
   \<exists>e. merge_response t rs = Inl e"
proof (induction rs arbitrary: t)
  case Nil
  then show ?case by simp
next
  case (Cons r rs)
  show ?case
  proof (cases "merge_response t (r # rs)")
    case (Inl e)
    then show ?thesis by blast
  next
    case (Inr t2)
    from Cons.prems(1) have "r = JObj d \<or> JObj d \<in> set rs" by auto
    then show ?thesis
    proof
      assume "r = JObj d"
      with Cons.prems(2,3) table_getitem_unknown [of t k] show ?thesis by auto
    next
      assume mem: "JObj d \<in> set rs"
      from Inr obtain d1 k1 key issue where r: "r = JObj d1" "d1 ''id'' = Some k1"
        "table_getitem t k1 = Inr (key, issue)"
        and rest: "merge_response (AList.update key (issue ++ d1) t) rs = Inr t2"
        by (auto split: json.splits option.splits sum.splits)
      from r(3) have "map fst (AList.update key (issue ++ d1) t) = map fst t"
        by (auto dest!: table_getitem_key simp: update_known_keys)
      from is_key_cong [OF this] Cons.prems(3)
      have "\<not> is_key (AList.update key (issue ++ d1) t) k"
        by simp
      from Cons.IH [OF mem Cons.prems(2) this] rest show ?thesis by simp
    qed
  qed
qed

lemma merge_details_unknown:
  "Inr rs \<in> set rss \<Longrightarrow> JObj d \<in> set rs \<Longrightarrow> d ''id'' = Some k \<Longrightarrow> \<not> is_key t k \<Longrightarrow>
   \<exists>e. merge_details t rss = Inl e"
proof (induction rss arbitrary: t)
  case Nil
  then show ?case by simp
next
  case (Cons x rss)
  show ?case
  proof (cases "merge_details t (x # rss)")
    case (Inl e)
    then show ?thesis by blast
  next
    case (Inr t2)
    then obtain rs1 t1 where x: "x = Inr rs1" and m: "merge_response t rs1 = Inr t1"
      and rest: "merge_details t1 rss = Inr t2"
      by (auto split: sum.splits)
    from Cons.prems(1) have "x = Inr rs \<or> Inr rs \<in> set rss" by auto
    then show ?thesis
    proof
      assume "x = Inr rs"
      with x m merge_response_unknown [OF Cons.prems(2,3,4)] show ?thesis by auto
    next
      assume mem: "Inr rs \<in> set rss"
      from m have "map fst t1 = map fst t" by (rule merge_response_keys)
      from is_key_cong [OF this] Cons.prems(4) have "\<not> is_key t1 k" by simp
      from Cons.IH [OF mem Cons.prems(2,3) this] rest show ?thesis by simp
    qed
  qed
qed

text \<open>
  Claim C4. A detail record whose id is not a key of the table makes the merge raise: the
  record is neither dropped nor given a new entry. A merge that succeeds leaves the keys
  of the table as they were.
\<close>

theorem detail_merge_unknown_id:
  "(Inr rs \<in> set responses \<longrightarrow> JObj d \<in> set rs \<longrightarrow> d ''id'' = Some k \<longrightarrow> \<not> is_key t k
      \<longrightarrow> (\<exists>e. merge_details t responses = Inl e))
   \<and> (merge_details t responses = Inr t1 \<longrightarrow> map fst t1 = map fst t)"
  using merge_details_unknown [of rs responses d k t] merge_details_keys [of t responses t1]
  by blast

theorem detail_merge_unknown_id_witness:
  "Inr [JObj [''id'' \<mapsto> JStr ''2'']] \<in> set [Inr [JObj [''id'' \<mapsto> JStr ''2'']]]
   \<and> JObj [''id'' \<mapsto> JStr ''2''] \<in> set [JObj [''id'' \<mapsto> JStr ''2'']]
   \<and> [''id'' \<mapsto> JStr ''2''] ''id'' = Some (JStr ''2'')
   \<and> merge_details test_table [Inr [JObj [''id'' \<mapsto> JStr ''2'']]] = Inl KeyError
   \<and> (\<exists>e. merge_details test_table [Inr [JObj [''id'' \<mapsto> JStr ''2'']]] = Inl e)"
proof -
  have k: "\<not> is_key test_table (JStr ''2'')"
    by (simp add: is_key_def test_table_def)
  have m: "merge_details test_table [Inr [JObj [''id'' \<mapsto> JStr ''2'']]] = Inl KeyError"
    by (simp add: test_table_def table_getitem_def)
  from k have "\<exists>e. merge_details test_table [Inr [JObj [''id'' \<mapsto> JStr ''2'']]] = Inl e"
    using detail_merge_unknown_id [of "[JObj [''id'' \<mapsto> JStr ''2'']]"
      "[Inr [JObj [''id'' \<mapsto> JStr ''2'']]]" "[''id'' \<mapsto> JStr ''2'']" "JStr ''2''" test_table]
    by simp
  with k m show ?thesis by simp
qed

lemma build_table_keys_mono:
  "fst (build_table env project issues t0 reqs w) = Inr (t, rq) \<Longrightarrow> fst ` set t0 \<subseteq> fst ` set t"
proof (induction issues arbitrary: t0 reqs w)
  case Nil
  then show ?case by simp
next
  case (Cons issue issues)
  from Cons.prems obtain d i key where issue: "issue = JObj d" "d ''id'' = Some i"
    "py_str env i = Inr key"
    by (auto split: json.splits option.splits sum.splits)
  with Cons.prems obtain reqs1 w1 where
    "fst (build_table env project issues (AList.update key d t0) reqs1 w1) = Inr (t, rq)"
    by (auto simp: case_prod_beta Let_def)
  from Cons.IH [OF this] show ?case by (auto simp: dom_update)
qed

lemma build_table_keys:
  "fst (build_table env project issues t0 reqs w) = Inr (t, rq) \<Longrightarrow>
   JObj d \<in> set issues \<Longrightarrow> d ''id'' = Some i \<Longrightarrow>
   \<exists>key. py_str env i = Inr key \<and> key \<in> fst ` set t"
proof (induction issues arbitrary: t0 reqs w)
  case Nil
  then show ?case by simp
next
  case (Cons issue issues)
  from Cons.prems(1) obtain d1 i1 key1 where issue: "issue = JObj d1" "d1 ''id'' = Some i1"
    "py_str env i1 = Inr key1"
    by (auto split: json.splits option.splits sum.splits)
  with Cons.prems(1) obtain reqs1 w1 where rest:
    "fst (build_table env project issues (AList.update key1 d1 t0) reqs1 w1) = Inr (t, rq)"
    by (auto simp: case_prod_beta Let_def)
  from Cons.prems(2) have "issue = JObj d \<or> JObj d \<in> set issues" by auto
  then show ?case
  proof
    assume "issue = JObj d"
    with issue Cons.prems(3) have "py_str env i = Inr key1" by simp
    moreover from build_table_keys_mono [OF rest] have "key1 \<in> fst ` set t"
      by (auto simp: dom_update)
    ultimately show ?thesis by blast
  next
    assume "JObj d \<in> set issues"
    from Cons.IH [OF rest this Cons.prems(3)] show ?thesis .
  qed
qed

lemma build_table_lookup:
  assumes "fst (build_table env project issues [] [] w) = Inr (t, rq)"
    and "JObj d \<in> set issues" and "d ''id'' = Some i"
  shows "\<exists>key issue. py_str env i = Inr key \<and> table_getitem t (JStr key) = Inr (key, issue)"
proof -
  from build_table_keys [OF assms] obtain key where
    "py_str env i = Inr key" and "key \<in> fst ` set t" by blast
  with table_getitem_known [of key t] show ?thesis by blast
qed

lemma upt_shift: "a # [Suc a ..< Suc a + n] = [a ..< a + Suc n]"
  using upt_conv_Cons [of a "a + Suc n"] by (simp del: upt_Suc)

lemma build_table_world:
  "build_table env project issues t0 reqs w = (Inr (t, rq), w1) \<Longrightarrow>
   rq = reqs @ [fresh w ..< fresh w + length issues]
   \<and> (\<forall>a<fresh w. heap w1 a = heap w a)
   \<and> (\<forall>j<length issues. \<exists>d i. issues ! j = JObj d \<and> d ''id'' = Some i
          \<and> heap w1 (fresh w + j) ''id'' = Some i)"
proof (induction issues arbitrary: t0 reqs w)
  case Nil
  then show ?case by simp
next
  case (Cons issue issues)
  from Cons.prems obtain d i key where issue: "issue = JObj d" "d ''id'' = Some i"
    "py_str env i = Inr key"
    by (auto split: json.splits option.splits sum.splits)
  let ?p = "[''action'' \<mapsto> JStr ''issue_details'', ''project'' \<mapsto> JStr project, ''id'' \<mapsto> i]"
  let ?w = "w\<lparr>heap := (heap w)(fresh w := ?p), fresh := Suc (fresh w)\<rparr>"
  from Cons.prems issue have rest:
    "build_table env project issues (AList.update key d t0) (reqs @ [fresh w]) ?w
       = (Inr (t, rq), w1)"
    by (simp add: alloc_def)
  from Cons.IH [OF rest] have rq: "rq = (reqs @ [fresh w]) @ [Suc (fresh w) ..< Suc (fresh w) + length issues]"
    and old: "\<forall>a<Suc (fresh w). heap w1 a = heap ?w a"
    and new: "\<forall>j<length issues. \<exists>d i. issues ! j = JObj d \<and> d ''id'' = Some i
                \<and> heap w1 (Suc (fresh w) + j) ''id'' = Some i"
    by simp_all
  have 1: "rq = reqs @ [fresh w ..< fresh w + length (issue # issues)]"
    using rq upt_shift [of "fresh w" "length issues"] by (simp del: upt_Suc)
  have 2: "\<forall>a<fresh w. heap w1 a = heap w a" using old by simp
  have 3: "\<exists>d i. (issue # issues) ! j = JObj d \<and> d ''id'' = Some i
             \<and> heap w1 (fresh w + j) ''id'' = Some i"
    if "j < length (issue # issues)" for j
  proof (cases j)
    case 0
    from old have "heap w1 (fresh w) = ?p" by simp
    with 0 issue show ?thesis by simp
  next
    case (Suc j1)
    with that new show ?thesis by simp
  qed
  from 1 2 3 show ?case by blast
qed

lemma build_table_requests:
  assumes "build_table env project issues [] [] w = (Inr (t, rq), w1)"
  shows "length rq = length issues
     \<and> (\<forall>j<length issues. \<exists>d i. issues ! j = JObj d \<and> d ''id'' = Some i
            \<and> heap w1 (rq ! j) ''id'' = Some i)"
proof -
  from build_table_world [OF assms]
  have rq: "rq = [fresh w ..< fresh w + length issues]"
    and new: "\<forall>j<length issues. \<exists>d i. issues ! j = JObj d \<and> d ''id'' = Some i
                \<and> heap w1 (fresh w + j) ''id'' = Some i"
    by simp_all
  from rq have "\<forall>j<length issues. rq ! j = fresh w + j" by simp
  with rq new show ?thesis by simp
qed

text \<open>
  Claim C5, as stated, fails: the table is keyed by \<^verbatim>\<open>str(issue['id'])\<close> and read with
  \<^verbatim>\<open>r['id']\<close> as it is. For a search record with the integer id 1, a detail record that
  carries the same integer finds no entry, and the merge raises \<^verbatim>\<open>KeyError\<close>.
\<close>

theorem detail_lookup_integer_id_counterexample:
  "build_table test_env ''P'' [JObj test_search_record] [] [] test_world
     = (Inr (test_table, [0]), snd (build_table test_env ''P'' [JObj test_search_record] [] []
          test_world))
   \<and> test_search_record ''id'' = Some (JInt 1)
   \<and> table_getitem test_table (JInt 1) = Inl KeyError
   \<and> merge_details test_table [Inr [JObj [''id'' \<mapsto> JInt 1, ''severity'' \<mapsto> JStr ''High'']]]
       = Inl KeyError"
  by (simp add: test_table_def test_search_record_def test_world_def test_env_def alloc_def
        py_str_def str_int_def str_nat.simps table_getitem_def)

text \<open>
  Claim C5, amended. When the table and the detail requests are built from a search
  response, there is one request for each search record, carrying the id of that record,
  and the lookup of a detail record finds an entry whenever its id is the JSON string that
  spells \<^verbatim>\<open>str\<close> of the id of a search record.
\<close>

theorem detail_requests_and_lookup:
  assumes "build_table env project issues [] [] w = (Inr (t, rq), w1)"
  shows "length rq = length issues
     \<and> (\<forall>j<length issues. \<exists>d i key issue.
            issues ! j = JObj d \<and> d ''id'' = Some i \<and> heap w1 (rq ! j) ''id'' = Some i
            \<and> py_str env i = Inr key \<and> table_getitem t (JStr key) = Inr (key, issue))"
proof (intro conjI allI impI)
  from build_table_requests [OF assms] show "length rq = length issues" by simp
next
  fix j assume j: "j < length issues"
  with build_table_requests [OF assms] obtain d i where
    d: "issues ! j = JObj d" "d ''id'' = Some i" "heap w1 (rq ! j) ''id'' = Some i"
    by blast
  from j d(1) have mem: "JObj d \<in> set issues" by (metis nth_mem)
  from assms have "fst (build_table env project issues [] [] w) = Inr (t, rq)" by simp
  from build_table_lookup [OF this mem d(2)] d
  show "\<exists>d i key issue.
            issues ! j = JObj d \<and> d ''id'' = Some i \<and> heap w1 (rq ! j) ''id'' = Some i
            \<and> py_str env i = Inr key \<and> table_getitem t (JStr key) = Inr (key, issue)"
    by blast
qed


theorem detail_requests_and_lookup_witness:
  "build_table test_env ''P'' [JObj test_search_record] [] [] test_world
     = (Inr (test_table, [0]),
        snd (build_table test_env ''P'' [JObj test_search_record] [] [] test_world))
   \<and> py_str test_env (JInt 1) = Inr ''1''
   \<and> table_getitem test_table (JStr ''1'') = Inr (''1'', test_search_record)
   \<and> (\<exists>d i key issue.
         [JObj test_search_record] ! 0 = JObj d \<and> d ''id'' = Some i
         \<and> py_str test_env i = Inr key \<and> table_getitem test_table (JStr key) = Inr (key, issue))"
proof -
  let ?w1 = "snd (build_table test_env ''P'' [JObj test_search_record] [] [] test_world)"
  have b: "build_table test_env ''P'' [JObj test_search_record] [] [] test_world
             = (Inr (test_table, [0]), ?w1)"
    by (simp add: test_table_def test_search_record_def test_world_def test_env_def alloc_def
          py_str_def str_int_def str_nat.simps)
  have s: "py_str test_env (JInt 1) = Inr ''1''"
    by (simp add: py_str_def str_int_def str_nat.simps)
  have g: "table_getitem test_table (JStr ''1'') = Inr (''1'', test_search_record)"
    by (simp add: table_getitem_def test_table_def)
  from detail_requests_and_lookup [OF b]
  have "\<exists>d i key issue.
         [JObj test_search_record] ! 0 = JObj d \<and> d ''id'' = Some i
         \<and> heap ?w1 ([0] ! 0) ''id'' = Some i
         \<and> py_str test_env i = Inr key \<and> table_getitem test_table (JStr key) = Inr (key, issue)"
    by simp
  then have "\<exists>d i key issue.
         [JObj test_search_record] ! 0 = JObj d \<and> d ''id'' = Some i
         \<and> py_str test_env i = Inr key \<and> table_getitem test_table (JStr key) = Inr (key, issue)"
    by blast
  with b s g show ?thesis by blast
qed

lemma posix_normpath_abc: "posix_normpath ''/a/b/c'' = ''/a/b/c''"
  by (simp add: posix_normpath_def split_def norm_step_def)

text \<open>
  Claim C3, as stated, fails: the test is the truth value of the comment, not a comparison
  with the empty string. A first history entry whose comment is \<^verbatim>\<open>null\<close>, on an issue of
  code \<^verbatim>\<open>Fix\<close>, gives \<^verbatim>\<open>dispositioned = "no"\<close>.
\<close>

theorem disposition_null_comment_counterexample:
  "field_of (derive_issue test_env None test_null_comment_issue) ''dispositioned''
     = Inr (Some (JStr ''no''))
   \<and> field_of (derive_issue test_env None test_null_comment_issue) ''comment''
     = Inr (Some JNull)
   \<and> field_of (derive_issue test_env None test_null_comment_issue) ''code''
     = Inr (Some (JStr ''Fix''))"
  by (simp add: field_of_def derive_issue_def latest_comment_def truthy_def truthy_str_def
        test_null_comment_issue_def test_env_def)

text \<open>
  Claim C3, amended. For every assembled issue, \<open>dispositioned\<close> is \<^verbatim>\<open>"no"\<close> exactly when
  the derived comment is false as a Python value (the empty string, and also \<^verbatim>\<open>null\<close>,
  \<^verbatim>\<open>false\<close>, 0, an empty list or object) or the code is \<^verbatim>\<open>"Analyze"\<close>, and \<^verbatim>\<open>"yes"\<close>
  otherwise; for a comment that is a string this is the rule of the claim. An issue with
  history \<^verbatim>\<open>[{comment: "fixed"}]\<close> and code \<^verbatim>\<open>"Fix"\<close> gets \<^verbatim>\<open>"yes"\<close> and \<^verbatim>\<open>"fixed"\<close>.
\<close>

theorem disposition_rule:
  assumes "derive_issue env project_root issue = Inr issue1"
  shows "\<exists>c. latest_comment issue = Inr c \<and> issue1 ''comment'' = Some c
     \<and> issue1 ''dispositioned''
         = Some (JStr (if \<not> truthy c \<or> issue ''code'' = Some (JStr ''Analyze'')
                       then ''no'' else ''yes''))
     \<and> (\<forall>s. c = JStr s \<longrightarrow>
           (issue1 ''dispositioned'' = Some (JStr ''no''))
             = (s = [] \<or> issue ''code'' = Some (JStr ''Analyze'')))"
proof -
  from assms obtain c where c: "latest_comment issue = Inr c"
    by (cases "latest_comment issue") (simp_all add: derive_issue_def)
  from assms c have com: "issue1 ''comment'' = Some c"
    by (auto simp: derive_issue_def Let_def split: if_splits option.splits json.splits)
  from assms c have disp: "issue1 ''dispositioned''
         = Some (JStr (if \<not> truthy c \<or> issue ''code'' = Some (JStr ''Analyze'')
                       then ''no'' else ''yes''))"
    by (auto simp: derive_issue_def Let_def split: if_splits option.splits json.splits)
  have str: "(issue1 ''dispositioned'' = Some (JStr ''no''))
             = (s = [] \<or> issue ''code'' = Some (JStr ''Analyze''))" if "c = JStr s" for s
    using disp that by (simp add: truthy_def)
  from c com disp str show ?thesis by blast
qed

theorem disposition_rule_witness:
  "latest_comment test_fixed_issue = Inr (JStr ''fixed'')
   \<and> field_of (derive_issue test_env None test_fixed_issue) ''comment''
       = Inr (Some (JStr ''fixed''))
   \<and> field_of (derive_issue test_env None test_fixed_issue) ''dispositioned''
       = Inr (Some (JStr ''yes''))
   \<and> field_of (derive_issue test_env None test_fixed_issue) ''location''
       = Inr (Some (JStr ''/a/b/c''))"
proof -
  have l: "latest_comment test_fixed_issue = Inr (JStr ''fixed'')"
    by (simp add: latest_comment_def test_fixed_issue_def)
  have code: "test_fixed_issue ''code'' = Some (JStr ''Fix'')"
    by (simp add: test_fixed_issue_def)
  have loc: "field_of (derive_issue test_env None test_fixed_issue) ''location''
       = Inr (Some (JStr ''/a/b/c''))"
    by (simp add: field_of_def derive_issue_def latest_comment_def truthy_def truthy_str_def
          test_fixed_issue_def test_env_def posix_normpath_abc replace_backslash_def)
  have "\<exists>issue1. derive_issue test_env None test_fixed_issue = Inr issue1"
    by (simp add: derive_issue_def latest_comment_def truthy_def truthy_str_def
          test_fixed_issue_def test_env_def)
  then obtain issue1 where e: "derive_issue test_env None test_fixed_issue = Inr issue1" ..
  from disposition_rule [OF e] l code
  have "issue1 ''comment'' = Some (JStr ''fixed'')"
    and "issue1 ''dispositioned'' = Some (JStr ''yes'')"
    by (auto simp: truthy_def)
  with l e loc show ?thesis by (simp add: field_of_def)
qed

text \<open>
  Claim C1. The comment of an issue whose history is present and empty should be the empty
  string. The code raises \<^verbatim>\<open>IndexError\<close> instead: on the search response of the claim,
  with the detail record keyed by the string \<^verbatim>\<open>"1"\<close>, \<open>get_klocwork_issues\<close> returns no
  record at all.
\<close>

theorem empty_history_raises:
  "fst (get_klocwork_issues test_env test_api ''B'' ''P'' None test_world) = Inl IndexError"
  by (simp add: get_klocwork_issues_def test_env_def test_api_def test_world_def alloc_def
      fetch_def dict_update_def request_def test_urlencode_def test_urlopen_def test_loads_def
      show_param_def multifetch_def MAX_PARALLEL_FETCH_COUNT_def MultiFetchHelper_fetch_def
      py_str_def str_int_def str_nat.simps table_getitem_def test_search_record_def
      test_detail_record_def derive_issue_def latest_comment_def Let_def split: prod.splits)

section \<open>The order of returns and merges\<close>

lemma merge_response_events_result:
  "fst (merge_response_events n t rs) = merge_response t rs"
  by (induction rs arbitrary: t)
     (auto simp: case_prod_beta split: json.splits option.splits sum.splits)

lemma merge_response_events_own:
  "n \<in> seen \<Longrightarrow>
   merge_after_own_return seen (snd (merge_response_events n t rs) @ evs)
     = merge_after_own_return seen evs"
  by (induction rs arbitrary: t)
     (auto simp: case_prod_beta split: json.splits option.splits sum.splits)

lemma merge_details_events_result:
  "fst (merge_details_events n t rss) = merge_details t rss"
proof (induction rss arbitrary: n t)
  case Nil
  then show ?case by simp
next
  case (Cons response rss)
  show ?case
  proof (cases response)
    case (Inl e)
    then show ?thesis by simp
  next
    case (Inr rs)
    obtain res evs where m: "merge_response_events n t rs = (res, evs)"
      by (cases "merge_response_events n t rs")
    with merge_response_events_result [of n t rs] have r: "merge_response t rs = res" by simp
    show ?thesis
      using Inr m r Cons.IH by (cases res) (simp_all add: case_prod_beta)
  qed
qed

lemma merge_details_events_own:
  "merge_after_own_return seen (snd (merge_details_events n t rss))"
proof (induction rss arbitrary: n t seen)
  case Nil
  then show ?case by simp
next
  case (Cons response rss)
  show ?case
  proof (cases response)
    case (Inl e)
    then show ?thesis by simp
  next
    case (Inr rs)
    obtain res evs where m: "merge_response_events n t rs = (res, evs)"
      by (cases "merge_response_events n t rs")
    have own: "merge_after_own_return (insert n seen) (evs @ more)
                 = merge_after_own_return (insert n seen) more" for more
      using merge_response_events_own [of n "insert n seen" t rs more] m by simp
    show ?thesis
    proof (cases res)
      case (Inl e)
      with Inr m own [of "[]"] show ?thesis by simp
    next
      case r: (Inr t1)
      from Cons.IH [of "insert n seen" "Suc n" t1] own
      show ?thesis using Inr m r by (simp add: case_prod_beta)
    qed
  qed
qed

text \<open>
  Claim C9, as stated, fails: the loop merges each response when the iterator yields it.
  With two responses, the record of the first is merged before the second is returned.
\<close>

theorem merge_before_drain_counterexample:
  "merge_details_events 0 test_table2
     [Inr [JObj test_detail_record], Inr [JObj [''id'' \<mapsto> JStr ''2'']]]
   = (merge_details test_table2
        [Inr [JObj test_detail_record], Inr [JObj [''id'' \<mapsto> JStr ''2'']]],
      [Returned 0, Merged 0 ''1'', Returned 1, Merged 1 ''2''])
   \<and> \<not> drained_before_merge [Returned 0, Merged 0 ''1'', Returned 1, Merged 1 ''2'']"
  by (simp add: test_table2_def test_detail_record_def table_getitem_def
        drained_before_merge_def)

text \<open>
  Claim C9, amended. The worker function changes no dict of the store (it only adds its
  request to the list of requests), so every merge happens in the loop of the
  orchestrator, which computes what \<open>merge_details\<close> computes; there each record is merged
  after the response that holds it has been returned by the iterator. Later responses may
  still be returned after that merge.
\<close>

theorem merge_follows_own_return:
  "fst (merge_details_events 0 t responses) = merge_details t responses
   \<and> merge_after_own_return {} (snd (merge_details_events 0 t responses))
   \<and> heap (snd (MultiFetchHelper_fetch env url p w)) = heap w
   \<and> fresh (snd (MultiFetchHelper_fetch env url p w)) = fresh w
   \<and> heap (snd (run_tasks env url ps w)) = heap w"
  by (simp add: merge_details_events_result merge_details_events_own run_tasks_heap
        MultiFetchHelper_fetch_def Let_def)

theorem merge_follows_own_return_witness:
  "snd (merge_details_events 0 test_table2
          [Inr [JObj test_detail_record], Inr [JObj [''id'' \<mapsto> JStr ''2'']]])
     = [Returned 0, Merged 0 ''1'', Returned 1, Merged 1 ''2'']
   \<and> merge_after_own_return {} [Returned 0, Merged 0 ''1'', Returned 1, Merged 1 ''2'']"
proof -
  have l: "snd (merge_details_events 0 test_table2
          [Inr [JObj test_detail_record], Inr [JObj [''id'' \<mapsto> JStr ''2'']]])
     = [Returned 0, Merged 0 ''1'', Returned 1, Merged 1 ''2'']"
    by (simp add: test_table2_def test_detail_record_def table_getitem_def)
  from merge_follows_own_return [of test_table2
         "[Inr [JObj test_detail_record], Inr [JObj [''id'' \<mapsto> JStr ''2'']]]"]
  have "merge_after_own_return {} (snd (merge_details_events 0 test_table2
          [Inr [JObj test_detail_record], Inr [JObj [''id'' \<mapsto> JStr ''2'']]]))"
    by simp
  with l show ?thesis by simp
qed

end
